theory Spec2Isabelle
  imports Main
begin

section \<open>JavaScript values and objects\<close>

text \<open>
  The class modelled is the \<^verbatim>\<open>Scheduler\<close> of \<^verbatim>\<open>src/scheduler.ts\<close>, the
  second document of \<^verbatim>\<open>src/tests/tests.ts\<close>: the class the test suite imports and
  the README describes. (\<^verbatim>\<open>src/unnamed/part_000\<close> keeps an earlier draft of the same
  class, ported half-way from a MongoDB library: it looks one hour ahead when it claims,
  assigns the lock to the found object itself, reads the cron expression from the
  configured field name instead of the job, and its rescheduling is commented out. The
  draft is not modelled.)

  The scheduler works on untyped rows (\<^verbatim>\<open>any\<close>) whose fields it reaches through
  configured field names. A JavaScript value is one of the constructors below; an object
  is an association list from property names to values, read with \<open>obj_get\<close> (an
  absent property reads \<^verbatim>\<open>undefined\<close>) and written with \<open>put\<close>, which
  overwrites an existing key as a JavaScript assignment or a repeated key of an object
  literal does.
\<close>

type_synonym err = string

datatype jsval = Undefined | Null | JBool bool | JNum int | JStr string | JDate int

type_synonym obj = "(string \<times> jsval) list"

fun truthy :: "jsval \<Rightarrow> bool" where
  "truthy Undefined = False"
| "truthy Null = False"
| "truthy (JBool b) = b"
| "truthy (JNum n) = (n \<noteq> 0)"
| "truthy (JStr s) = (s \<noteq> [])"
| "truthy (JDate d) = True"

fun put :: "string \<Rightarrow> 'v \<Rightarrow> (string \<times> 'v) list \<Rightarrow> (string \<times> 'v) list" where
  "put k v [] = [(k, v)]"
| "put k v ((k', v') # kvs) = (if k' = k then (k, v) # kvs else (k', v') # put k v kvs)"

definition obj_get :: "obj \<Rightarrow> string \<Rightarrow> jsval" where
  "obj_get ob k = (case map_of ob k of None \<Rightarrow> Undefined | Some v \<Rightarrow> v)"

fun set_fields :: "obj \<Rightarrow> obj \<Rightarrow> obj" where
  "set_fields [] row = row"
| "set_fields ((k, v) # kvs) row = set_fields kvs (put k v row)"

section \<open>Timestamps as strings\<close>

text \<open>
  A date is a number of milliseconds since the epoch. \<^verbatim>\<open>moment(d).format('X')\<close>
  renders it as the decimal string of the whole seconds, \<open>Math.floor(ms / 1000)\<close>, with
  a leading minus sign below zero. The scheduler stores and compares these strings, so the
  rendering is modelled digit by digit.
\<close>

definition digit_char :: "nat \<Rightarrow> char" where
  "digit_char d = ''0123456789'' ! d"

fun show_nat :: "nat \<Rightarrow> string" where
  "show_nat n = (if n < 10 then [digit_char n] else show_nat (n div 10) @ [digit_char (n mod 10)])"

declare show_nat.simps [simp del]

definition show_int :: "int \<Rightarrow> string" where
  "show_int i = (if i < 0 then CHR ''-'' # show_nat (nat (- i)) else show_nat (nat i))"

definition format_X :: "int \<Rightarrow> string" where
  "format_X d = show_int (d div 1000)"

text \<open>
  The relational operator \<^verbatim>\<open><\<close> of JavaScript on two strings compares them code
  unit by code unit; a proper prefix is smaller.
\<close>

fun js_lt :: "string \<Rightarrow> string \<Rightarrow> bool" where
  "js_lt [] [] = False"
| "js_lt [] (y # ys) = True"
| "js_lt (x # xs) [] = False"
| "js_lt (x # xs) (y # ys) =
     (if (of_char x :: nat) < of_char y then True
      else if (of_char y :: nat) < of_char x then False
      else js_lt xs ys)"

text \<open>
  The store reads the due column as a unix timestamp in seconds (the README: ``The value
  must be a unix timestamp''): a decimal string, or a number. How a database orders the
  column depends on the column type of the entity it is given; the model takes the order
  of the timestamps.
\<close>

definition is_digit :: "char \<Rightarrow> bool" where
  "is_digit c = (48 \<le> (of_char c :: nat) \<and> (of_char c :: nat) \<le> 57)"

definition digit_val :: "char \<Rightarrow> nat" where
  "digit_val c = of_char c - 48"

definition decimal :: "string \<Rightarrow> nat" where
  "decimal s = foldl (\<lambda>a c. 10 * a + digit_val c) 0 s"

definition read_nat :: "string \<Rightarrow> nat option" where
  "read_nat s = (if s \<noteq> [] \<and> list_all is_digit s then Some (decimal s) else None)"

fun read_int :: "string \<Rightarrow> int option" where
  "read_int [] = None"
| "read_int (c # cs) = (if c = CHR ''-'' then map_option (\<lambda>n. - int n) (read_nat cs)
                        else map_option int (read_nat (c # cs)))"

fun timestamp_of :: "jsval \<Rightarrow> int option" where
  "timestamp_of (JStr s) = read_int s"
| "timestamp_of (JNum n) = Some n"
| "timestamp_of v = None"

section \<open>The job store\<close>

text \<open>
  The table is the list of its rows. The find operators of the ORM are evaluated as SQL
  does: a comparison with a NULL column is never true, so \<open>LessThan\<close> selects only rows
  whose column holds a timestamp, and that timestamp is smaller than the operand.
  \<open>findOne\<close> answers the first row that satisfies every entry of the where object.
  Updates and deletes address rows by their \<^verbatim>\<open>id\<close> property.
\<close>

datatype find_operator = Not_op jsval | LessThan jsval

fun satisfies :: "find_operator \<Rightarrow> jsval \<Rightarrow> bool" where
  "satisfies (LessThan c) v =
     (case timestamp_of v of None \<Rightarrow> False
      | Some a \<Rightarrow> (case timestamp_of c of None \<Rightarrow> False | Some b \<Rightarrow> a < b))"
| "satisfies (Not_op c) v = (v \<noteq> Null \<and> v \<noteq> Undefined \<and> v \<noteq> c)"

fun matches :: "(string \<times> find_operator) list \<Rightarrow> obj \<Rightarrow> bool" where
  "matches [] row = True"
| "matches ((f, c) # cs) row = (satisfies c (obj_get row f) \<and> matches cs row)"

definition findOne :: "(string \<times> find_operator) list \<Rightarrow> obj list \<Rightarrow> obj option" where
  "findOne wh rs = find (matches wh) rs"

definition has_id :: "jsval \<Rightarrow> obj \<Rightarrow> bool" where
  "has_id i row = (i \<noteq> Undefined \<and> i \<noteq> Null \<and> obj_get row ''id'' = i)"

definition update_rows :: "jsval \<Rightarrow> obj \<Rightarrow> obj list \<Rightarrow> obj list" where
  "update_rows i vals rs = map (\<lambda>row. if has_id i row then set_fields vals row else row) rs"

definition delete_rows :: "jsval \<Rightarrow> obj list \<Rightarrow> obj list" where
  "delete_rows i rs = filter (\<lambda>row. \<not> has_id i row) rs"

section \<open>Configuration, collaborators and state\<close>

text \<open>
  A hook either returns (\<open>None\<close>) or raises (\<open>Some e\<close>); the optional hooks may be
  absent. Hooks are observers: what they do to the store or to the scheduler is not
  modelled. The state holds the three flags of the class, the table, the clock in
  milliseconds (it advances by the sleeps only, and the readings of \<^verbatim>\<open>moment()\<close>
  within one operation see the same instant) and the trace of what was invoked. The collaborators the scheduler consumes are parameters: the cron engine
  (\<^verbatim>\<open>parseExpression(expr, {currentDate, endDate}).next().toDate()\<close>, \<open>Inl\<close> when
  it throws; a \<open>None\<close> current date is an invalid date), the timestamp parser
  \<^verbatim>\<open>moment(v, 'X')\<close> (\<open>None\<close> is an invalid date), and the failures of the store,
  one answer per kind of request.
\<close>

record config =
  nextDelay :: int
  idleDelay :: int
  lockDuration :: int
  sleepUntilFieldPath :: string
  intervalFieldPath :: string
  repeatUntilFieldPath :: string
  autoRemoveFieldPath :: string
  onNewJob :: "(obj \<Rightarrow> err option) option"
  onStart :: "(unit \<Rightarrow> err option) option"
  onStop :: "(unit \<Rightarrow> err option) option"
  onIdle :: "(unit \<Rightarrow> err option) option"
  onError :: "err \<Rightarrow> err option"

datatype store_call = Transaction | Update | Delete

record env =
  parseExpression_next :: "jsval \<Rightarrow> int option \<Rightarrow> jsval \<Rightarrow> err + int"
  moment_X :: "jsval \<Rightarrow> int option"
  fault :: "store_call \<Rightarrow> err option"

datatype event = OnStart | OnStop | OnIdle | OnNewJob obj | OnError err | Sleep int | NextTick

record state =
  running :: bool
  processing :: bool
  idle :: bool
  rows :: "obj list"
  now :: int
  trace :: "event list"

datatype outcome = Returned | Scheduled | Rejected err

definition sleep :: "int \<Rightarrow> state \<Rightarrow> state" where
  "sleep d s = s\<lparr>now := now s + max 0 d, trace := trace s @ [Sleep d]\<rparr>"

fun call_hook :: "event \<Rightarrow> (unit \<Rightarrow> err option) option \<Rightarrow> state \<Rightarrow> err option \<times> state" where
  "call_hook ev None s = (None, s)"
| "call_hook ev (Some h) s = (h (), s\<lparr>trace := trace s @ [ev]\<rparr>)"

fun call_onNewJob :: "(obj \<Rightarrow> err option) option \<Rightarrow> obj \<Rightarrow> state \<Rightarrow> err option \<times> state" where
  "call_onNewJob None job s = (None, s)"
| "call_onNewJob (Some h) job s = (h job, s\<lparr>trace := trace s @ [OnNewJob job]\<rparr>)"

section \<open>Claiming a job: checkNextAndLock\<close>

text \<open>
  \<^verbatim>\<open>getConnection().transaction(fn)\<close> runs its body atomically: when the store
  fails, or the body raises, nothing is changed.
\<close>

definition transaction ::
  "env \<Rightarrow> (state \<Rightarrow> (err + 'a) \<times> state) \<Rightarrow> state \<Rightarrow> (err + 'a) \<times> state" where
  "transaction ev body s =
     (case fault ev Transaction of
        Some e \<Rightarrow> (Inl e, s)
      | None \<Rightarrow> (case body s of (Inl e, s') \<Rightarrow> (Inl e, s) | (Inr r, s') \<Rightarrow> (Inr r, s')))"

text \<open>
  The where object is written with the same computed key twice
  (\<^verbatim>\<open>{[k]: Not(null), [k]: LessThan(currentDate)}\<close>): the second entry replaces
  the first. The found row is returned as it was read; the lock is written to the table by
  \<^verbatim>\<open>entityManager.update\<close>, addressed by the row's id.
\<close>

definition checkNextAndLock :: "config \<Rightarrow> env \<Rightarrow> state \<Rightarrow> (err + obj option) \<times> state" where
  "checkNextAndLock cfg ev s =
     (let lockDuration' = format_X (now s + lockDuration cfg);
          currentDate = format_X (now s)
      in transaction ev (\<lambda>s.
           let origJob = findOne
                 (put (sleepUntilFieldPath cfg) (LessThan (JStr currentDate))
                   (put (sleepUntilFieldPath cfg) (Not_op Null) []))
                 (rows s)
           in case origJob of
                None \<Rightarrow> (Inr None, s)
              | Some job \<Rightarrow>
                  (Inr (Some job),
                   s\<lparr>rows := update_rows (obj_get job ''id'')
                              (put (sleepUntilFieldPath cfg) (JStr lockDuration') []) (rows s)\<rparr>)) s)"

section \<open>The next start: getNextStart\<close>

definition getNextStart :: "config \<Rightarrow> env \<Rightarrow> int \<Rightarrow> obj \<Rightarrow> jsval" where
  "getNextStart cfg ev t job =
     (if intervalFieldPath cfg = [] then Null
      else
        let available = moment_X ev (obj_get job (sleepUntilFieldPath cfg));
            future = available
        in case parseExpression_next ev (obj_get job (intervalFieldPath cfg)) future
                  (obj_get job (repeatUntilFieldPath cfg)) of
             Inl e \<Rightarrow> Null
           | Inr d \<Rightarrow>
               let next = format_X d; now' = format_X t
               in if js_lt next now' then JStr now' else JStr next)"

section \<open>Rescheduling: rescheduleSleep\<close>

definition repo_delete :: "env \<Rightarrow> jsval \<Rightarrow> state \<Rightarrow> err option \<times> state" where
  "repo_delete ev i s =
     (case fault ev Delete of
        Some e \<Rightarrow> (Some e, s)
      | None \<Rightarrow> (None, s\<lparr>rows := delete_rows i (rows s)\<rparr>))"

definition repo_update :: "env \<Rightarrow> jsval \<Rightarrow> obj \<Rightarrow> state \<Rightarrow> err option \<times> state" where
  "repo_update ev i vals s =
     (case fault ev Update of
        Some e \<Rightarrow> (Some e, s)
      | None \<Rightarrow> (None, s\<lparr>rows := update_rows i vals (rows s)\<rparr>))"

definition rescheduleSleep :: "config \<Rightarrow> env \<Rightarrow> obj \<Rightarrow> state \<Rightarrow> err option \<times> state" where
  "rescheduleSleep cfg ev job s =
     (let nextStart = getNextStart cfg ev (now s) job in
      if \<not> truthy nextStart \<and> truthy (obj_get job (autoRemoveFieldPath cfg))
      then repo_delete ev (obj_get job ''id'') s
      else if \<not> truthy nextStart
      then repo_update ev (obj_get job ''id'') (put (sleepUntilFieldPath cfg) Null []) s
      else repo_update ev (obj_get job ''id'') (put (sleepUntilFieldPath cfg) nextStart []) s)"

section \<open>The tick loop\<close>

text \<open>
  \<open>tick_try\<close> is the body of the \<^verbatim>\<open>try\<close> block of \<^verbatim>\<open>tick\<close>: it answers the
  error that left the block, if any, with the state at that point. \<open>tick\<close> is one
  invocation: \<open>Returned\<close> when it returns before the block, \<open>Scheduled\<close> when it
  reaches \<^verbatim>\<open>process.nextTick(() => this.tick())\<close>, \<open>Rejected\<close> when an error
  escapes it.
\<close>

definition tick_try :: "config \<Rightarrow> env \<Rightarrow> state \<Rightarrow> err option \<times> state" where
  "tick_try cfg ev s =
     (case checkNextAndLock cfg ev s of
        (Inl e, s1) \<Rightarrow> (Some e, s1)
      | (Inr None, s1) \<Rightarrow>
          (let s2 = s1\<lparr>processing := False\<rparr> in
           if \<not> idle s2 then
             (case call_hook OnIdle (onIdle cfg) (s2\<lparr>idle := True\<rparr>) of
                (Some e, s3) \<Rightarrow> (Some e, s3)
              | (None, s3) \<Rightarrow> (None, sleep (idleDelay cfg) s3))
           else (None, sleep (idleDelay cfg) s2))
      | (Inr (Some job), s1) \<Rightarrow>
          (case call_onNewJob (onNewJob cfg) job (s1\<lparr>idle := False\<rparr>) of
             (Some e, s3) \<Rightarrow> (Some e, s3)
           | (None, s3) \<Rightarrow>
               (case rescheduleSleep cfg ev job s3 of
                  (Some e, s4) \<Rightarrow> (Some e, s4)
                | (None, s4) \<Rightarrow> (None, s4\<lparr>processing := False\<rparr>))))"

definition tick :: "config \<Rightarrow> env \<Rightarrow> state \<Rightarrow> outcome \<times> state" where
  "tick cfg ev s =
     (if \<not> running s then (Returned, s)
      else
        let s1 = sleep (nextDelay cfg) s in
        if \<not> running s1 then (Returned, s1)
        else
          (case tick_try cfg ev (s1\<lparr>processing := True\<rparr>) of
             (None, s2) \<Rightarrow> (Scheduled, s2\<lparr>trace := trace s2 @ [NextTick]\<rparr>)
           | (Some e, s2) \<Rightarrow>
               (case onError cfg e of
                  None \<Rightarrow> (Scheduled, s2\<lparr>trace := trace s2 @ [OnError e, NextTick]\<rparr>)
                | Some e' \<Rightarrow> (Rejected e', s2\<lparr>trace := trace s2 @ [OnError e]\<rparr>))))"

text \<open>
  \<open>entered\<close> is the state in which a tick of a running scheduler enters its
  \<^verbatim>\<open>try\<close> block. \<open>raised\<close> says that the block is left by an error of the
  claim, of the \<^verbatim>\<open>onNewJob\<close> callback or of the rescheduling (and not of the
  \<^verbatim>\<open>onIdle\<close> hook).
\<close>

definition entered :: "config \<Rightarrow> state \<Rightarrow> state" where
  "entered cfg s = (sleep (nextDelay cfg) s)\<lparr>processing := True\<rparr>"

definition raised :: "config \<Rightarrow> env \<Rightarrow> state \<Rightarrow> err \<Rightarrow> bool" where
  "raised cfg ev s e =
     (case checkNextAndLock cfg ev s of
        (Inl e', s1) \<Rightarrow> e' = e
      | (Inr None, s1) \<Rightarrow> False
      | (Inr (Some job), s1) \<Rightarrow>
          (case call_onNewJob (onNewJob cfg) job (s1\<lparr>idle := False\<rparr>) of
             (Some e', s3) \<Rightarrow> e' = e
           | (None, s3) \<Rightarrow> fst (rescheduleSleep cfg ev job s3) = Some e))"

text \<open>The loop: \<open>run n\<close> lets up to \<open>n\<close> ticks follow one another, as long as each
  schedules the next.\<close>

fun run :: "nat \<Rightarrow> config \<Rightarrow> env \<Rightarrow> state \<Rightarrow> outcome \<times> state" where
  "run 0 cfg ev s = (Scheduled, s)"
| "run (Suc n) cfg ev s =
     (case tick cfg ev s of
        (Scheduled, s') \<Rightarrow> run n cfg ev s'
      | (Returned, s') \<Rightarrow> (Returned, s')
      | (Rejected e, s') \<Rightarrow> (Rejected e, s'))"

section \<open>Starting and stopping\<close>

definition start :: "config \<Rightarrow> state \<Rightarrow> outcome \<times> state" where
  "start cfg s =
     (if \<not> running s then
        (case call_hook OnStart (onStart cfg) (s\<lparr>running := True\<rparr>) of
           (Some e, s1) \<Rightarrow> (Rejected e, s1)
         | (None, s1) \<Rightarrow> (Scheduled, s1\<lparr>trace := trace s1 @ [NextTick]\<rparr>))
      else (Returned, s))"

text \<open>
  \<^verbatim>\<open>stop\<close> polls: while \<^verbatim>\<open>processing\<close> is set it sleeps 300 ms and calls
  itself again. Whatever else runs during one such sleep (a tick in flight, a pending tick)
  is a state transformer; the list gives one per sleep. \<open>None\<close> says that the poll is
  still going after all of them.
\<close>

fun stop :: "config \<Rightarrow> (state \<Rightarrow> state) list \<Rightarrow> state \<Rightarrow> (err option \<times> state) option" where
  "stop cfg [] s =
     (let s1 = s\<lparr>running := False\<rparr> in
      if processing s1 then None
      else Some (call_hook OnStop (onStop cfg) s1))"
| "stop cfg (during # rest) s =
     (let s1 = s\<lparr>running := False\<rparr> in
      if processing s1 then stop cfg rest (during (sleep 300 s1))
      else Some (call_hook OnStop (onStop cfg) s1))"

text \<open>\<open>polled\<close> lists the states in which the successive attempts of \<open>stop\<close>
  test the processing flag.\<close>

fun polled :: "(state \<Rightarrow> state) list \<Rightarrow> state \<Rightarrow> state list" where
  "polled [] s = [s\<lparr>running := False\<rparr>]"
| "polled (during # rest) s =
     s\<lparr>running := False\<rparr> # polled rest (during (sleep 300 (s\<lparr>running := False\<rparr>)))"

definition isRunning :: "state \<Rightarrow> bool" where
  "isRunning s = running s"

definition isProcessing :: "state \<Rightarrow> bool" where
  "isProcessing s = processing s"

definition isIdle :: "state \<Rightarrow> bool" where
  "isIdle s = idle s"

section \<open>A concrete scheduler\<close>

text \<open>
  The constructor's defaults, a cron engine that knows the expression ``every minute'' and
  honours an end date, a parser for timestamps in seconds, a store that never fails, and a
  table with one row that fell due ten seconds before the clock's reading.
\<close>

definition default_config :: config where
  "default_config =
     \<lparr>nextDelay = 0, idleDelay = 10000, lockDuration = 600000,
      sleepUntilFieldPath = ''sleepUntil'', intervalFieldPath = ''interval'',
      repeatUntilFieldPath = ''repeatUntil'', autoRemoveFieldPath = ''autoRemove'',
      onNewJob = Some (\<lambda>doc. None), onStart = None, onStop = None, onIdle = None,
      onError = (\<lambda>e. None)\<rparr>"

definition every_minute :: "jsval \<Rightarrow> int option \<Rightarrow> jsval \<Rightarrow> err + int" where
  "every_minute expr currentDate endDate =
     (if expr = JStr ''* * * * *'' then
        (case currentDate of
           None \<Rightarrow> Inl ''invalid date''
         | Some c \<Rightarrow>
             (let n = (c div 60000 + 1) * 60000 in
              case endDate of
                JDate b \<Rightarrow> if b < n then Inl ''out of the timespan range'' else Inr n
              | v \<Rightarrow> Inr n))
      else Inl ''invalid cron expression'')"

definition unix_seconds :: "jsval \<Rightarrow> int option" where
  "unix_seconds v = map_option (\<lambda>t. 1000 * t) (timestamp_of v)"

definition sound_env :: env where
  "sound_env = \<lparr>parseExpression_next = every_minute, moment_X = unix_seconds,
                 fault = (\<lambda>c. None)\<rparr>"

definition due_row :: obj where
  "due_row = [(''id'', JNum 1), (''sleepUntil'', JStr ''1699999990'')]"

definition st0 :: state where
  "st0 = \<lparr>running = True, processing = False, idle = False, rows = [due_row],
          now = 1700000000000, trace = []\<rparr>"

definition old_job :: obj where
  "old_job = [(''id'', JNum 7), (''sleepUntil'', JStr ''0''), (''interval'', JStr ''* * * * *'')]"

definition recurring_job :: obj where
  "recurring_job =
     [(''id'', JNum 3), (''sleepUntil'', JStr ''1699999990''), (''interval'', JStr ''* * * * *'')]"

definition removable_row :: obj where
  "removable_row = [(''id'', JNum 2), (''sleepUntil'', JStr ''1699999990''), (''autoRemove'', JBool True)]"

definition st1 :: state where
  "st1 = \<lparr>running = True, processing = True, idle = False,
          rows = [due_row, removable_row, recurring_job],
          now = 1700000000000, trace = []\<rparr>"

definition hooked_config :: config where
  "hooked_config = default_config\<lparr>onIdle := Some (\<lambda>u. None), onStop := Some (\<lambda>u. None)\<rparr>"

definition rethrowing_config :: config where
  "rethrowing_config = default_config\<lparr>onError := (\<lambda>e. Some e)\<rparr>"

definition offline_env :: env where
  "offline_env = sound_env\<lparr>fault := (\<lambda>c. Some ''connection lost'')\<rparr>"

definition failing_callback_config :: config where
  "failing_callback_config = default_config\<lparr>onNewJob := Some (\<lambda>doc. Some ''callback failed'')\<rparr>"

definition update_fails_env :: env where
  "update_fails_env =
     sound_env\<lparr>fault := (\<lambda>c. if c = Update then Some ''update failed'' else None)\<rparr>"

definition st_recurring :: state where
  "st_recurring = \<lparr>running = True, processing = False, idle = False, rows = [recurring_job],
                   now = 1700000000000, trace = []\<rparr>"

definition st_empty :: state where
  "st_empty = \<lparr>running = True, processing = False, idle = False, rows = [],
               now = 1700000000000, trace = []\<rparr>"

definition st_busy :: state where
  "st_busy = \<lparr>running = True, processing = True, idle = False, rows = [due_row],
              now = 1700000000000, trace = []\<rparr>"

definition st_stopped :: state where
  "st_stopped = \<lparr>running = False, processing = False, idle = True, rows = [],
                 now = 1700000000000, trace = [OnStop]\<rparr>"

section \<open>Basic facts\<close>

subsection \<open>Rendering and reading timestamps\<close>

lemma digit_char_val: "d < 10 \<Longrightarrow> digit_val (digit_char d) = d \<and> is_digit (digit_char d)"
proof -
  assume "d < 10"
  then have "d \<in> {0,1,2,3,4,5,6,7,8,9}" by auto
  then show ?thesis
    by (auto simp: digit_char_def digit_val_def is_digit_def)
qed

lemma show_nat_digits:
  "list_all is_digit (show_nat n) \<and> show_nat n \<noteq> [] \<and> decimal (show_nat n) = n"
proof (induction n rule: show_nat.induct)
  case (1 n)
  show ?case
  proof (cases "n < 10")
    case True
    then show ?thesis
      using digit_char_val [of n] by (simp add: show_nat.simps [of n] decimal_def)
  next
    case False
    have m: "n mod 10 < 10" by simp
    from False 1 digit_char_val [OF m] show ?thesis
      by (simp add: show_nat.simps [of n] decimal_def)
  qed
qed

lemma read_nat_show_nat: "read_nat (show_nat n) = Some n"
  using show_nat_digits [of n] by (simp add: read_nat_def)

lemma show_nat_hd: "\<exists>c cs. show_nat n = c # cs \<and> is_digit c"
  using show_nat_digits [of n] by (cases "show_nat n") auto

lemma read_int_show_int: "read_int (show_int i) = Some i"
proof (cases "i < 0")
  case True
  then show ?thesis by (simp add: show_int_def read_nat_show_nat)
next
  case False
  obtain c cs where h: "show_nat (nat i) = c # cs" "is_digit c"
    using show_nat_hd by blast
  have "c \<noteq> CHR ''-''" using h(2) by (auto simp: is_digit_def)
  with False h(1) read_nat_show_nat [of "nat i"] show ?thesis
    by (simp add: show_int_def)
qed

lemma read_int_format_X: "read_int (format_X d) = Some (d div 1000)"
  by (simp add: format_X_def read_int_show_int)

lemma format_X_nonempty: "format_X d \<noteq> []"
  using show_nat_digits by (simp add: format_X_def show_int_def)

lemma put_twice: "put k v (put k v' []) = [(k, v)]"
  by simp

lemma obj_get_put_same: "obj_get (put k v ob) k = v"
  by (induction ob) (auto simp: obj_get_def)

lemma obj_get_put_other: "k' \<noteq> k \<Longrightarrow> obj_get (put k v ob) k' = obj_get ob k'"
  by (induction ob) (auto simp: obj_get_def)




lemma update_rows_locked:
  "row \<in> set (update_rows i [(k, v)] rs) \<Longrightarrow> has_id i row \<Longrightarrow> obj_get row k = v"
  by (auto simp: update_rows_def obj_get_put_same split: if_splits)


lemmas eval_defs = default_config_def sound_env_def due_row_def st0_def
  checkNextAndLock_def transaction_def findOne_def update_rows_def delete_rows_def has_id_def
  obj_get_def format_X_def show_int_def show_nat.simps digit_char_def
  read_nat_def decimal_def is_digit_def digit_val_def Let_def


subsection \<open>The value of getNextStart\<close>

lemma getNextStart_value:
  "getNextStart cfg ev t job = Null \<or>
   (\<exists>d. getNextStart cfg ev t job = JStr (format_X d)) \<and> truthy (getNextStart cfg ev t job)"
  by (auto simp: getNextStart_def Let_def format_X_nonempty split: sum.splits)

lemma getNextStart_Inr:
  assumes "intervalFieldPath cfg \<noteq> []"
    and "parseExpression_next ev (obj_get job (intervalFieldPath cfg))
           (moment_X ev (obj_get job (sleepUntilFieldPath cfg)))
           (obj_get job (repeatUntilFieldPath cfg)) = Inr d"
  shows "getNextStart cfg ev t job =
           (if js_lt (format_X d) (format_X t) then JStr (format_X t) else JStr (format_X d))"
  using assms by (simp add: getNextStart_def Let_def)

lemmas eval_defs2 = eval_defs getNextStart_def every_minute_def unix_seconds_def
  old_job_def recurring_job_def rescheduleSleep_def repo_update_def repo_delete_def

lemmas eval_defs3 = eval_defs2 removable_row_def st1_def

subsection \<open>The string order on renderings of equal length\<close>

lemma foldl_decimal_shift:
  "foldl (\<lambda>a c. 10 * a + digit_val c) a s = a * 10 ^ length s + decimal s"
proof (induction s arbitrary: a)
  case Nil
  then show ?case by (simp add: decimal_def)
next
  case (Cons c cs)
  have "foldl (\<lambda>a c. 10 * a + digit_val c) a (c # cs)
        = foldl (\<lambda>a c. 10 * a + digit_val c) (10 * a + digit_val c) cs" by simp
  also have "\<dots> = (10 * a + digit_val c) * 10 ^ length cs + decimal cs"
    by (rule Cons.IH)
  finally have l: "foldl (\<lambda>a c. 10 * a + digit_val c) a (c # cs)
        = (10 * a + digit_val c) * 10 ^ length cs + decimal cs" .
  have "decimal (c # cs) = foldl (\<lambda>a c. 10 * a + digit_val c) (digit_val c) cs"
    by (simp add: decimal_def)
  also have "\<dots> = digit_val c * 10 ^ length cs + decimal cs"
    by (rule Cons.IH)
  finally have r: "decimal (c # cs) = digit_val c * 10 ^ length cs + decimal cs" .
  show ?case unfolding l r by (simp add: algebra_simps)
qed

lemma decimal_Cons: "decimal (c # cs) = digit_val c * 10 ^ length cs + decimal cs"
proof -
  have "decimal (c # cs) = foldl (\<lambda>a c. 10 * a + digit_val c) (digit_val c) cs"
    by (simp add: decimal_def)
  then show ?thesis by (simp only: foldl_decimal_shift)
qed

lemma decimal_bound: "list_all is_digit s \<Longrightarrow> decimal s < 10 ^ length s"
proof (induction s)
  case Nil
  then show ?case by (simp add: decimal_def)
next
  case (Cons c cs)
  then have "digit_val c \<le> 9" "decimal cs < 10 ^ length cs"
    by (auto simp: is_digit_def digit_val_def)
  then have "digit_val c * 10 ^ length cs + decimal cs < 9 * 10 ^ length cs + 10 ^ length cs"
    by (meson add_le_less_mono mult_le_mono1)
  then show ?case by (simp add: decimal_Cons)
qed

lemma js_lt_decimal:
  "length xs = length ys \<Longrightarrow> list_all is_digit xs \<Longrightarrow> list_all is_digit ys \<Longrightarrow>
     js_lt xs ys = (decimal xs < decimal ys)"
proof (induction xs ys rule: list_induct2)
  case Nil
  then show ?case by simp
next
  case (Cons x xs y ys)
  then have ih: "js_lt xs ys = (decimal xs < decimal ys)" by simp
  from Cons.prems have dx: "is_digit x" and dy: "is_digit y" by simp_all
  have bx: "decimal xs < 10 ^ length xs" and "decimal ys < 10 ^ length ys"
    using Cons.prems by (simp_all add: decimal_bound)
  with Cons.hyps have by': "decimal ys < 10 ^ length xs" by simp
  have cmp: "((of_char x :: nat) < of_char y) = (digit_val x < digit_val y)"
    using dx dy by (auto simp: is_digit_def digit_val_def)
  have cmp': "((of_char y :: nat) < of_char x) = (digit_val y < digit_val x)"
    using dx dy by (auto simp: is_digit_def digit_val_def)
  let ?p = "(10::nat) ^ length xs"
  have cx: "decimal (x # xs) = digit_val x * ?p + decimal xs" by (rule decimal_Cons)
  have cy: "decimal (y # ys) = digit_val y * ?p + decimal ys"
    using Cons.hyps by (simp add: decimal_Cons)
  consider (lt) "digit_val x < digit_val y" | (gt) "digit_val y < digit_val x"
    | (eq) "digit_val x = digit_val y" by linarith
  then show ?case
  proof cases
    case lt
    then have "digit_val x + 1 \<le> digit_val y" by simp
    then have "(digit_val x + 1) * ?p \<le> digit_val y * ?p" by (rule mult_le_mono1)
    with bx have "digit_val x * ?p + decimal xs < digit_val y * ?p + decimal ys"
      by (simp add: algebra_simps)
    with lt cmp show ?thesis unfolding cx cy by simp
  next
    case gt
    then have "digit_val y + 1 \<le> digit_val x" by simp
    then have "(digit_val y + 1) * ?p \<le> digit_val x * ?p" by (rule mult_le_mono1)
    with by' have "digit_val y * ?p + decimal ys < digit_val x * ?p + decimal xs"
      by (simp add: algebra_simps)
    with gt cmp cmp' show ?thesis unfolding cx cy by simp
  next
    case eq
    with cmp cmp' ih show ?thesis unfolding cx cy by simp
  qed
qed

lemma js_lt_show_nat:
  "length (show_nat a) = length (show_nat b) \<Longrightarrow> js_lt (show_nat a) (show_nat b) = (a < b)"
  using js_lt_decimal [of "show_nat a" "show_nat b"] show_nat_digits [of a] show_nat_digits [of b]
  by simp

lemma js_lt_format_X:
  assumes "0 \<le> a" and "0 \<le> b" and "length (format_X a) = length (format_X b)"
  shows "js_lt (format_X a) (format_X b) = (a div 1000 < b div 1000)"
proof -
  have n: "0 \<le> a div 1000" "0 \<le> b div 1000" using assms by simp_all
  then have f: "format_X a = show_nat (nat (a div 1000))" "format_X b = show_nat (nat (b div 1000))"
    by (simp_all add: format_X_def show_int_def)
  from assms(3) have "js_lt (format_X a) (format_X b) = (nat (a div 1000) < nat (b div 1000))"
    unfolding f by (rule js_lt_show_nat)
  with n show ?thesis by linarith
qed

subsection \<open>One tick\<close>

lemma tick_entered:
  "running s \<Longrightarrow> tick cfg ev s =
     (case tick_try cfg ev (entered cfg s) of
        (None, s2) \<Rightarrow> (Scheduled, s2\<lparr>trace := trace s2 @ [NextTick]\<rparr>)
      | (Some e, s2) \<Rightarrow>
          (case onError cfg e of
             None \<Rightarrow> (Scheduled, s2\<lparr>trace := trace s2 @ [OnError e, NextTick]\<rparr>)
           | Some e' \<Rightarrow> (Rejected e', s2\<lparr>trace := trace s2 @ [OnError e]\<rparr>)))"
  by (simp add: tick_def entered_def sleep_def Let_def)

lemma tick_not_running: "\<not> running s \<Longrightarrow> tick cfg ev s = (Returned, s)"
  by (simp add: tick_def)

lemma checkNextAndLock_flags:
  "checkNextAndLock cfg ev s = (r, s') \<Longrightarrow>
     running s' = running s \<and> processing s' = processing s \<and> idle s' = idle s
     \<and> trace s' = trace s \<and> now s' = now s"
  by (auto simp: checkNextAndLock_def transaction_def Let_def split: option.splits)

lemma call_onNewJob_flags:
  "call_onNewJob h job s = (r, s') \<Longrightarrow>
     running s' = running s \<and> processing s' = processing s \<and> idle s' = idle s
     \<and> rows s' = rows s"
  by (cases h) auto

lemma call_hook_flags:
  "call_hook x h s = (r, s') \<Longrightarrow>
     running s' = running s \<and> processing s' = processing s \<and> idle s' = idle s
     \<and> rows s' = rows s
     \<and> trace s' = trace s @ (if h = None then [] else [x])"
  by (cases h) auto

lemma rescheduleSleep_flags:
  "rescheduleSleep cfg ev job s = (r, s') \<Longrightarrow>
     running s' = running s \<and> processing s' = processing s \<and> idle s' = idle s
     \<and> trace s' = trace s"
  by (auto simp: rescheduleSleep_def repo_delete_def repo_update_def Let_def
        split: if_splits option.splits)

lemma raised_tick_try:
  assumes "raised cfg ev s e"
  shows "fst (tick_try cfg ev s) = Some e
       \<and> processing (snd (tick_try cfg ev s)) = processing s
       \<and> running (snd (tick_try cfg ev s)) = running s"
proof (cases "checkNextAndLock cfg ev s")
  case (Pair r s1)
  note c = checkNextAndLock_flags [OF Pair]
  show ?thesis
  proof (cases r)
    case (Inl e')
    with assms Pair c show ?thesis by (simp add: raised_def tick_try_def)
  next
    case (Inr jo)
    show ?thesis
    proof (cases jo)
      case None
      with assms Pair Inr show ?thesis by (simp add: raised_def)
    next
      case (Some job)
      obtain r3 s3 where n: "call_onNewJob (onNewJob cfg) job (s1\<lparr>idle := False\<rparr>) = (r3, s3)"
        by (cases "call_onNewJob (onNewJob cfg) job (s1\<lparr>idle := False\<rparr>)")
      note f3 = call_onNewJob_flags [OF n]
      show ?thesis
      proof (cases r3)
        case (Some e')
        with assms Pair Inr \<open>jo = Some job\<close> n f3 c show ?thesis
          by (simp add: raised_def tick_try_def)
      next
        case None
        obtain r4 s4 where q: "rescheduleSleep cfg ev job s3 = (r4, s4)"
          by (cases "rescheduleSleep cfg ev job s3")
        note f4 = rescheduleSleep_flags [OF q]
        from assms Pair Inr \<open>jo = Some job\<close> n None q have "r4 = Some e"
          by (simp add: raised_def)
        with Pair Inr \<open>jo = Some job\<close> n None q f3 f4 c show ?thesis
          by (simp add: tick_try_def)
      qed
    qed
  qed
qed

lemma entered_flags:
  "running (entered cfg s) = running s \<and> processing (entered cfg s)
   \<and> idle (entered cfg s) = idle s \<and> rows (entered cfg s) = rows s
   \<and> trace (entered cfg s) = trace s @ [Sleep (nextDelay cfg)]"
  by (simp add: entered_def sleep_def)

lemma tick_running_kept: "running (snd (tick cfg ev s)) = running s"
proof (cases "running s")
  case False
  then show ?thesis by (simp add: tick_not_running)
next
  case True
  obtain r s2 where t: "tick_try cfg ev (entered cfg s) = (r, s2)"
    by (cases "tick_try cfg ev (entered cfg s)")
  have "running s2 = running (entered cfg s)"
    using t
    by (auto simp: tick_try_def Let_def sleep_def
          split: prod.splits sum.splits option.splits if_splits
          dest!: checkNextAndLock_flags call_onNewJob_flags call_hook_flags rescheduleSleep_flags)
  with True t entered_flags [of cfg s] show ?thesis
    by (simp add: tick_entered split: option.splits)
qed


lemma tick_try_no_job:
  assumes "checkNextAndLock cfg ev s = (Inr None, s1)"
  shows "tick_try cfg ev s =
     (if \<not> idle s then
        (case call_hook OnIdle (onIdle cfg) (s1\<lparr>processing := False, idle := True\<rparr>) of
           (Some e, s3) \<Rightarrow> (Some e, s3)
         | (None, s3) \<Rightarrow> (None, sleep (idleDelay cfg) s3))
      else (None, sleep (idleDelay cfg) (s1\<lparr>processing := False\<rparr>)))"
  using assms checkNextAndLock_flags [OF assms]
  by (simp add: tick_try_def Let_def)

lemma tick_try_job:
  assumes "checkNextAndLock cfg ev s = (Inr (Some job), s1)"
  shows "tick_try cfg ev s =
     (case call_onNewJob (onNewJob cfg) job (s1\<lparr>idle := False\<rparr>) of
        (Some e, s3) \<Rightarrow> (Some e, s3)
      | (None, s3) \<Rightarrow>
          (case rescheduleSleep cfg ev job s3 of
             (Some e, s4) \<Rightarrow> (Some e, s4)
           | (None, s4) \<Rightarrow> (None, s4\<lparr>processing := False\<rparr>)))"
  using assms by (simp add: tick_try_def)

lemma tick_try_claim_failed:
  assumes "checkNextAndLock cfg ev s = (Inl e, s1)"
  shows "tick_try cfg ev s = (Some e, s1)"
  using assms by (simp add: tick_try_def)

lemma tick_try_no_job_idle:
  assumes "checkNextAndLock cfg ev s = (Inr None, s1)"
  shows "idle (snd (tick_try cfg ev s))
       \<and> trace (snd (tick_try cfg ev s)) =
           trace s @ (if idle s \<or> onIdle cfg = None then [] else [OnIdle])
             @ (if fst (tick_try cfg ev s) = None then [Sleep (idleDelay cfg)] else [])"
proof -
  note f = checkNextAndLock_flags [OF assms]
  show ?thesis
  proof (cases "idle s")
    case True
    with f show ?thesis by (simp add: tick_try_no_job [OF assms] sleep_def)
  next
    case False
    obtain r s3 where h: "call_hook OnIdle (onIdle cfg) (s1\<lparr>processing := False, idle := True\<rparr>) = (r, s3)"
      by (cases "call_hook OnIdle (onIdle cfg) (s1\<lparr>processing := False, idle := True\<rparr>)")
    note g = call_hook_flags [OF h]
    from False f g h show ?thesis
      by (cases r) (simp_all add: tick_try_no_job [OF assms] sleep_def)
  qed
qed

lemma tick_try_job_idle:
  assumes "checkNextAndLock cfg ev s = (Inr (Some job), s1)"
  shows "\<not> idle (snd (tick_try cfg ev s))
       \<and> count_list (trace (snd (tick_try cfg ev s))) OnIdle = count_list (trace s) OnIdle"
proof -
  note f = checkNextAndLock_flags [OF assms]
  obtain r3 s3 where n: "call_onNewJob (onNewJob cfg) job (s1\<lparr>idle := False\<rparr>) = (r3, s3)"
    by (cases "call_onNewJob (onNewJob cfg) job (s1\<lparr>idle := False\<rparr>)")
  have t3: "count_list (trace s3) OnIdle = count_list (trace s) OnIdle" "\<not> idle s3"
    using n f by (cases "onNewJob cfg"; auto)+
  obtain r4 s4 where q: "rescheduleSleep cfg ev job s3 = (r4, s4)"
    by (cases "rescheduleSleep cfg ev job s3")
  note f4 = rescheduleSleep_flags [OF q]
  from n q t3 f4 show ?thesis
    by (cases r3; cases r4) (simp_all add: tick_try_job [OF assms])
qed

lemma tick_try_failed_idle:
  assumes "checkNextAndLock cfg ev s = (Inl e, s1)"
  shows "idle (snd (tick_try cfg ev s)) = idle s
       \<and> trace (snd (tick_try cfg ev s)) = trace s"
  using checkNextAndLock_flags [OF assms] by (simp add: tick_try_claim_failed [OF assms])

lemma tick_after_try:
  assumes "running s"
  shows "idle (snd (tick cfg ev s)) = idle (snd (tick_try cfg ev (entered cfg s)))
       \<and> processing (snd (tick cfg ev s)) = processing (snd (tick_try cfg ev (entered cfg s)))
       \<and> count_list (trace (snd (tick cfg ev s))) OnIdle
           = count_list (trace (snd (tick_try cfg ev (entered cfg s)))) OnIdle"
  using assms
  by (cases "tick_try cfg ev (entered cfg s)")
     (auto simp: tick_entered split: option.splits)

lemma tick_scheduled:
  assumes "running s" and "\<forall>x. onError cfg x = None"
  shows "fst (tick cfg ev s) = Scheduled"
  using assms
  by (cases "tick_try cfg ev (entered cfg s)") (auto simp: tick_entered split: option.splits)

lemma run_scheduled:
  assumes "\<forall>x. onError cfg x = None"
  shows "running s \<Longrightarrow> fst (run n cfg ev s) = Scheduled \<and> running (snd (run n cfg ev s))"
proof (induction n arbitrary: s)
  case 0
  then show ?case by simp
next
  case (Suc n)
  obtain o' s' where t: "tick cfg ev s = (o', s')" by (cases "tick cfg ev s")
  from tick_scheduled [OF Suc.prems assms, of ev] t have o': "o' = Scheduled" by simp
  from tick_running_kept [of cfg ev s] t Suc.prems have "running s'" by simp
  from Suc.IH [OF this] t o' show ?case by simp
qed

subsection \<open>Stopping\<close>

lemma stop_never:
  assumes "\<forall>f \<in> set fs. \<forall>x. \<not> running x \<longrightarrow> processing x \<longrightarrow> processing (f x)"
    and "processing s"
  shows "stop cfg fs s = None"
  using assms
proof (induction fs arbitrary: s)
  case Nil
  then show ?case by simp
next
  case (Cons f fs)
  let ?s1 = "sleep 300 (s\<lparr>running := False\<rparr>)"
  have "\<not> running ?s1" "processing ?s1"
    using Cons.prems(2) by (simp_all add: sleep_def)
  with Cons.prems(1) have "processing (f ?s1)" by simp
  with Cons.IH [of "f ?s1"] Cons.prems(1) have "stop cfg fs (f ?s1) = None" by simp
  with Cons.prems(2) show ?case by simp
qed

lemma stop_polled:
  "stop cfg fs s =
     (case find (\<lambda>x. \<not> processing x) (polled fs s) of
        None \<Rightarrow> None
      | Some x \<Rightarrow> Some (call_hook OnStop (onStop cfg) x))"
  by (induction fs arbitrary: s) (simp_all add: Let_def)

lemma stop_idle:
  "\<not> processing s \<Longrightarrow>
     stop cfg fs s = Some (call_hook OnStop (onStop cfg) (s\<lparr>running := False\<rparr>))"
  by (cases fs) simp_all

lemma stop_busy:
  "processing s \<Longrightarrow> stop cfg (f # fs) s = stop cfg fs (f (sleep 300 (s\<lparr>running := False\<rparr>)))"
  by simp

lemma stop_Some:
  "stop cfg fs s = Some (r, s') \<Longrightarrow> \<not> running s' \<and> \<not> processing s'"
proof (induction fs arbitrary: s)
  case Nil
  then show ?case
    by (cases "onStop cfg") (auto simp: Let_def split: if_splits)
next
  case (Cons f fs)
  show ?case
  proof (cases "processing s")
    case True
    with Cons.prems have "stop cfg fs (f (sleep 300 (s\<lparr>running := False\<rparr>))) = Some (r, s')"
      by simp
    from Cons.IH [OF this] show ?thesis .
  next
    case False
    with Cons.prems show ?thesis
      by (cases "onStop cfg") (auto simp: Let_def)
  qed
qed

lemmas eval_tick = eval_defs3 tick_def tick_try_def entered_def sleep_def raised_def
  hooked_config_def rethrowing_config_def offline_env_def st_empty_def st_busy_def
  st_stopped_def failing_callback_config_def update_fails_env_def st_recurring_def

lemma offline_raised:
  "raised default_config offline_env (entered default_config st0) ''connection lost''"
  by (simp add: eval_tick)

lemma callback_raised:
  "raised failing_callback_config sound_env (entered failing_callback_config st0) ''callback failed''"
  by (simp add: eval_tick)

lemma update_raised:
  "raised default_config update_fails_env (entered default_config st0) ''update failed''"
  by (simp add: eval_tick)

lemma empty_no_job:
  "fst (checkNextAndLock hooked_config sound_env (entered hooked_config st_empty)) = Inr None"
  by (simp add: eval_tick)

lemma recurring_tick:
  "tick default_config sound_env st_recurring =
     (Scheduled,
      st_recurring\<lparr>rows := [[(''id'', JNum 3), (''sleepUntil'', JStr ''1700000040''),
                               (''interval'', JStr ''* * * * *'')]],
                    trace := [Sleep 0, OnNewJob recurring_job, NextTick]\<rparr>)"
  by (simp add: eval_tick)

lemma idle_tick1:
  "tick hooked_config sound_env st_empty =
     (Scheduled, st_empty\<lparr>idle := True, now := 1700000010000,
        trace := [Sleep 0, OnIdle, Sleep 10000, NextTick]\<rparr>)"
  by (simp add: eval_tick)

lemma idle_tick2:
  "tick hooked_config sound_env (st_empty\<lparr>idle := True, now := 1700000010000,
        trace := [Sleep 0, OnIdle, Sleep 10000, NextTick]\<rparr>) =
     (Scheduled, st_empty\<lparr>idle := True, now := 1700000020000,
        trace := [Sleep 0, OnIdle, Sleep 10000, NextTick, Sleep 0, Sleep 10000, NextTick]\<rparr>)"
  by (simp add: eval_tick)

lemma idle_run2:
  "run 2 hooked_config sound_env st_empty =
     (Scheduled, st_empty\<lparr>idle := True, now := 1700000020000,
        trace := [Sleep 0, OnIdle, Sleep 10000, NextTick, Sleep 0, Sleep 10000, NextTick]\<rparr>)"
  by (simp add: numeral_2_eq_2 idle_tick1 idle_tick2)

section \<open>The claim operation\<close>





section \<open>The next start and the rescheduling\<close>

text \<open>
  C3. \<open>rescheduleSleep\<close> issues exactly one request to the store, chosen by the next
  start: when there is none and the job's autoRemove field is truthy, the rows with the
  job's id are deleted; when there is none and the field is not truthy, their due column
  is set to null; when there is one, their due column is set to it. With a store that does
  not fail, the table afterwards is the old one with exactly that change.
\<close>

theorem rescheduleSleep_three_ways:
  "rescheduleSleep cfg ev job s =
     (case getNextStart cfg ev (now s) job of
        Null \<Rightarrow>
          (if truthy (obj_get job (autoRemoveFieldPath cfg))
           then repo_delete ev (obj_get job ''id'') s
           else repo_update ev (obj_get job ''id'') [(sleepUntilFieldPath cfg, Null)] s)
      | v \<Rightarrow> repo_update ev (obj_get job ''id'') [(sleepUntilFieldPath cfg, v)] s)
   \<and> (fault ev Delete = None \<longrightarrow> fault ev Update = None \<longrightarrow>
        fst (rescheduleSleep cfg ev job s) = None \<and>
        rows (snd (rescheduleSleep cfg ev job s)) =
          (case getNextStart cfg ev (now s) job of
             Null \<Rightarrow>
               (if truthy (obj_get job (autoRemoveFieldPath cfg))
                then filter (\<lambda>row. \<not> has_id (obj_get job ''id'') row) (rows s)
                else map (\<lambda>row. if has_id (obj_get job ''id'') row
                                then put (sleepUntilFieldPath cfg) Null row else row) (rows s))
           | v \<Rightarrow> map (\<lambda>row. if has_id (obj_get job ''id'') row
                              then put (sleepUntilFieldPath cfg) v row else row) (rows s)))"
proof -
  consider (none) "getNextStart cfg ev (now s) job = Null"
    | (some) d where "getNextStart cfg ev (now s) job = JStr (format_X d)"
    using getNextStart_value [of cfg ev "now s" job] by blast
  then show ?thesis
  proof cases
    case none
    then show ?thesis
      by (simp add: rescheduleSleep_def repo_delete_def repo_update_def
            update_rows_def delete_rows_def)
  next
    case some
    then show ?thesis
      by (simp add: rescheduleSleep_def repo_update_def update_rows_def format_X_nonempty)
  qed
qed

theorem rescheduleSleep_three_ways_witness:
  "rows (snd (rescheduleSleep default_config sound_env removable_row st1))
     = [due_row, recurring_job]
   \<and> rows (snd (rescheduleSleep default_config sound_env due_row st1))
     = [[(''id'', JNum 1), (''sleepUntil'', Null)], removable_row, recurring_job]
   \<and> rows (snd (rescheduleSleep default_config sound_env recurring_job st1))
     = [due_row, removable_row,
        [(''id'', JNum 3), (''sleepUntil'', JStr ''1700000040''), (''interval'', JStr ''* * * * *'')]]"
proof -
  have f: "fault sound_env Delete = None" "fault sound_env Update = None"
    by (simp_all add: sound_env_def)
  have g: "getNextStart default_config sound_env (now st1) removable_row = Null"
    "getNextStart default_config sound_env (now st1) due_row = Null"
    "getNextStart default_config sound_env (now st1) recurring_job = JStr ''1700000040''"
    by (simp_all add: eval_defs3)
  from rescheduleSleep_three_ways [of default_config sound_env removable_row st1] f g(1)
  have a: "rows (snd (rescheduleSleep default_config sound_env removable_row st1))
     = [due_row, recurring_job]"
    by (simp add: eval_defs3)
  from rescheduleSleep_three_ways [of default_config sound_env due_row st1] f g(2)
  have b: "rows (snd (rescheduleSleep default_config sound_env due_row st1))
     = [[(''id'', JNum 1), (''sleepUntil'', Null)], removable_row, recurring_job]"
    by (simp add: eval_defs3)
  from rescheduleSleep_three_ways [of default_config sound_env recurring_job st1] f g(3)
  have c: "rows (snd (rescheduleSleep default_config sound_env recurring_job st1))
     = [due_row, removable_row,
        [(''id'', JNum 3), (''sleepUntil'', JStr ''1700000040''), (''interval'', JStr ''* * * * *'')]]"
    by (simp add: eval_defs3)
  from a b c show ?thesis by blast
qed

text \<open>
  C4. For a job whose interval the cron engine accepts, answering an occurrence (as it
  does for a recurring job with no bound), \<open>getNextStart\<close> is a non-empty timestamp
  string, and \<open>rescheduleSleep\<close> asks the store to set the due column of the job's
  rows to it: never to null, and no row is deleted.
\<close>

theorem recurring_job_rearmed:
  assumes "intervalFieldPath cfg \<noteq> []"
    and "parseExpression_next ev (obj_get job (intervalFieldPath cfg))
           (moment_X ev (obj_get job (sleepUntilFieldPath cfg)))
           (obj_get job (repeatUntilFieldPath cfg)) = Inr d"
  shows "\<exists>v. v \<noteq> [] \<and> (v = format_X d \<or> v = format_X (now s))
       \<and> getNextStart cfg ev (now s) job = JStr v
       \<and> rescheduleSleep cfg ev job s
           = repo_update ev (obj_get job ''id'') [(sleepUntilFieldPath cfg, JStr v)] s
       \<and> (fault ev Update = None \<longrightarrow>
            fst (rescheduleSleep cfg ev job s) = None
          \<and> length (rows (snd (rescheduleSleep cfg ev job s))) = length (rows s)
          \<and> (\<forall>row \<in> set (rows (snd (rescheduleSleep cfg ev job s))).
                has_id (obj_get job ''id'') row \<longrightarrow>
                obj_get row (sleepUntilFieldPath cfg) = JStr v
                \<and> obj_get row (sleepUntilFieldPath cfg) \<noteq> Null))"
proof -
  define v where "v = (if js_lt (format_X d) (format_X (now s)) then format_X (now s) else format_X d)"
  have g: "getNextStart cfg ev (now s) job = JStr v"
    using getNextStart_Inr [OF assms] by (simp add: v_def)
  have n: "v \<noteq> []" "v = format_X d \<or> v = format_X (now s)"
    by (auto simp: v_def format_X_nonempty)
  have r: "rescheduleSleep cfg ev job s
           = repo_update ev (obj_get job ''id'') [(sleepUntilFieldPath cfg, JStr v)] s"
    using g n(1) by (simp add: rescheduleSleep_def)
  have u: "fault ev Update = None \<longrightarrow>
            fst (rescheduleSleep cfg ev job s) = None
          \<and> length (rows (snd (rescheduleSleep cfg ev job s))) = length (rows s)
          \<and> (\<forall>row \<in> set (rows (snd (rescheduleSleep cfg ev job s))).
                has_id (obj_get job ''id'') row \<longrightarrow>
                obj_get row (sleepUntilFieldPath cfg) = JStr v
                \<and> obj_get row (sleepUntilFieldPath cfg) \<noteq> Null)"
  proof
    assume nf: "fault ev Update = None"
    have s': "rescheduleSleep cfg ev job s =
        (None, s\<lparr>rows := update_rows (obj_get job ''id'') [(sleepUntilFieldPath cfg, JStr v)] (rows s)\<rparr>)"
      unfolding r by (simp add: repo_update_def nf)
    have l: "length (update_rows (obj_get job ''id'') [(sleepUntilFieldPath cfg, JStr v)] (rows s))
              = length (rows s)"
      by (simp add: update_rows_def)
    have a: "\<forall>row \<in> set (update_rows (obj_get job ''id'') [(sleepUntilFieldPath cfg, JStr v)] (rows s)).
                has_id (obj_get job ''id'') row \<longrightarrow>
                obj_get row (sleepUntilFieldPath cfg) = JStr v
                \<and> obj_get row (sleepUntilFieldPath cfg) \<noteq> Null"
      using update_rows_locked by fastforce
    show "fst (rescheduleSleep cfg ev job s) = None
          \<and> length (rows (snd (rescheduleSleep cfg ev job s))) = length (rows s)
          \<and> (\<forall>row \<in> set (rows (snd (rescheduleSleep cfg ev job s))).
                has_id (obj_get job ''id'') row \<longrightarrow>
                obj_get row (sleepUntilFieldPath cfg) = JStr v
                \<and> obj_get row (sleepUntilFieldPath cfg) \<noteq> Null)"
      unfolding s' using l a by simp
  qed
  show ?thesis
    apply (rule exI [of _ v])
    using g n r u by simp
qed

theorem recurring_job_rearmed_witness:
  "intervalFieldPath default_config \<noteq> []
   \<and> parseExpression_next sound_env (obj_get recurring_job ''interval'')
        (moment_X sound_env (obj_get recurring_job ''sleepUntil''))
        (obj_get recurring_job ''repeatUntil'') = Inr 1700000040000
   \<and> getNextStart default_config sound_env (now st1) recurring_job = JStr ''1700000040''
   \<and> obj_get recurring_job ''repeatUntil'' = Undefined
   \<and> rows (snd (tick default_config sound_env st_recurring))
       = [[(''id'', JNum 3), (''sleepUntil'', JStr ''1700000040''),
           (''interval'', JStr ''* * * * *'')]]"
proof -
  have a: "intervalFieldPath default_config \<noteq> []" by (simp add: default_config_def)
  have b: "parseExpression_next sound_env (obj_get recurring_job (intervalFieldPath default_config))
        (moment_X sound_env (obj_get recurring_job (sleepUntilFieldPath default_config)))
        (obj_get recurring_job (repeatUntilFieldPath default_config)) = Inr 1700000040000"
    by (simp add: eval_defs3)
  from recurring_job_rearmed [OF a b, of st1]
  have "getNextStart default_config sound_env (now st1) recurring_job = JStr ''1700000040''"
    by (auto simp: eval_defs3)
  with a b show ?thesis by (simp add: recurring_tick) (simp add: eval_defs3)
qed

text \<open>
  C5. The catch-up clamp compares the two renderings as strings. For a job last due at the
  epoch with an every-minute interval, the candidate is second 60, long before the clock's
  reading of 1700000000 seconds; as a string ``60'' is not smaller than ``1700000000'', so
  \<open>getNextStart\<close> answers the candidate in the past and not the current time.
\<close>

theorem getNextStart_clamp_missed:
  "getNextStart default_config sound_env 1700000000000 old_job = JStr ''60''
   \<and> format_X 1700000000000 = ''1700000000''
   \<and> \<not> js_lt ''60'' ''1700000000''
   \<and> timestamp_of (getNextStart default_config sound_env 1700000000000 old_job) = Some 60
   \<and> (60::int) < 1700000000000 div 1000"
  by (simp add: eval_defs2)

text \<open>
  Where the two renderings have the same length and no sign, as those of any two dates
  between September 2001 and November 2286 do, the string order is the order of the
  numbers and the result is the later of the candidate and the current time.
\<close>

lemma getNextStart_clamp_same_length:
  assumes "intervalFieldPath cfg \<noteq> []"
    and "parseExpression_next ev (obj_get job (intervalFieldPath cfg))
           (moment_X ev (obj_get job (sleepUntilFieldPath cfg)))
           (obj_get job (repeatUntilFieldPath cfg)) = Inr d"
    and "0 \<le> d" and "0 \<le> t" and "length (format_X d) = length (format_X t)"
  shows "timestamp_of (getNextStart cfg ev t job) = Some (max (d div 1000) (t div 1000))"
  using getNextStart_Inr [OF assms(1,2), of t] js_lt_format_X [OF assms(3,4,5)]
  by (simp add: read_int_format_X max_def)

text \<open>
  C6. \<open>getNextStart\<close> answers null exactly when no interval field is configured or
  the cron engine raises; otherwise it answers a non-empty string. It has no other result,
  in particular no error. A job whose interval is unset (undefined or null) reaches the
  engine with that value, so it gets null from an engine that refuses what is not an
  expression.
\<close>

theorem getNextStart_null_iff:
  "(getNextStart cfg ev t job = Null) =
     (intervalFieldPath cfg = [] \<or>
      isl (parseExpression_next ev (obj_get job (intervalFieldPath cfg))
             (moment_X ev (obj_get job (sleepUntilFieldPath cfg)))
             (obj_get job (repeatUntilFieldPath cfg))))
   \<and> (getNextStart cfg ev t job = Null \<or>
        (\<exists>v. v \<noteq> [] \<and> getNextStart cfg ev t job = JStr v))
   \<and> ((\<forall>c b. isl (parseExpression_next ev Undefined c b) \<and> isl (parseExpression_next ev Null c b))
        \<longrightarrow> obj_get job (intervalFieldPath cfg) = Undefined \<or> obj_get job (intervalFieldPath cfg) = Null
        \<longrightarrow> getNextStart cfg ev t job = Null)"
proof -
  let ?r = "parseExpression_next ev (obj_get job (intervalFieldPath cfg))
             (moment_X ev (obj_get job (sleepUntilFieldPath cfg)))
             (obj_get job (repeatUntilFieldPath cfg))"
  have a: "(getNextStart cfg ev t job = Null) = (intervalFieldPath cfg = [] \<or> isl ?r)"
    by (cases ?r) (auto simp: getNextStart_def Let_def)
  have b: "getNextStart cfg ev t job = Null \<or> (\<exists>v. v \<noteq> [] \<and> getNextStart cfg ev t job = JStr v)"
    using getNextStart_value [of cfg ev t job] format_X_nonempty by auto
  have c: "(\<forall>c b. isl (parseExpression_next ev Undefined c b) \<and> isl (parseExpression_next ev Null c b))
        \<longrightarrow> obj_get job (intervalFieldPath cfg) = Undefined \<or> obj_get job (intervalFieldPath cfg) = Null
        \<longrightarrow> getNextStart cfg ev t job = Null"
    unfolding a by auto
  from a b c show ?thesis by blast
qed

theorem getNextStart_null_iff_witness:
  "getNextStart default_config sound_env 1700000000000 due_row = Null
   \<and> obj_get due_row (intervalFieldPath default_config) = Undefined
   \<and> getNextStart default_config sound_env 1700000000000 recurring_job = JStr ''1700000040''
   \<and> \<not> isl (parseExpression_next sound_env (obj_get recurring_job ''interval'')
              (moment_X sound_env (obj_get recurring_job ''sleepUntil''))
              (obj_get recurring_job ''repeatUntil''))"
proof -
  have e: "\<forall>c b. isl (parseExpression_next sound_env Undefined c b)
               \<and> isl (parseExpression_next sound_env Null c b)"
    by (simp add: sound_env_def every_minute_def)
  have u: "obj_get due_row (intervalFieldPath default_config) = Undefined"
    by (simp add: eval_defs)
  have r: "getNextStart default_config sound_env 1700000000000 recurring_job = JStr ''1700000040''"
    by (simp add: eval_defs2)
  from getNextStart_null_iff [of default_config sound_env 1700000000000 due_row] e u
  have n: "getNextStart default_config sound_env 1700000000000 due_row = Null" by blast
  from getNextStart_null_iff [of default_config sound_env 1700000000000 recurring_job] r
  have i: "\<not> isl (parseExpression_next sound_env (obj_get recurring_job ''interval'')
              (moment_X sound_env (obj_get recurring_job ''sleepUntil''))
              (obj_get recurring_job ''repeatUntil''))"
    by (simp add: default_config_def)
  from n u r i show ?thesis by blast
qed

section \<open>The tick loop and its hooks\<close>

text \<open>
  C7, as amended. In a tick of a running scheduler, an error raised by the claim, by the
  \<^verbatim>\<open>onNewJob\<close> callback or by the rescheduling leaves the \<^verbatim>\<open>try\<close> block and
  is handed to \<^verbatim>\<open>onError\<close>. When \<^verbatim>\<open>onError\<close> returns, the next tick is
  scheduled; with an \<^verbatim>\<open>onError\<close> that always returns, the loop of a running
  scheduler goes on for any number of ticks. When \<^verbatim>\<open>onError\<close> itself raises, its
  error escapes the tick and no next tick is scheduled.
\<close>

theorem tick_error_routed:
  assumes "running s" and "raised cfg ev (entered cfg s) e"
  shows "fst (tick_try cfg ev (entered cfg s)) = Some e
       \<and> (onError cfg e = None \<longrightarrow>
            fst (tick cfg ev s) = Scheduled
          \<and> trace (snd (tick cfg ev s))
              = trace (snd (tick_try cfg ev (entered cfg s))) @ [OnError e, NextTick])
       \<and> (\<forall>e'. onError cfg e = Some e' \<longrightarrow>
            fst (tick cfg ev s) = Rejected e'
          \<and> trace (snd (tick cfg ev s))
              = trace (snd (tick_try cfg ev (entered cfg s))) @ [OnError e])
       \<and> ((\<forall>x. onError cfg x = None) \<longrightarrow>
            (\<forall>n. fst (run n cfg ev s) = Scheduled \<and> running (snd (run n cfg ev s))))"
proof -
  obtain r s2 where t: "tick_try cfg ev (entered cfg s) = (r, s2)"
    by (cases "tick_try cfg ev (entered cfg s)")
  from raised_tick_try [OF assms(2)] t have r: "r = Some e" by simp
  have a: "onError cfg e = None \<longrightarrow>
            fst (tick cfg ev s) = Scheduled
          \<and> trace (snd (tick cfg ev s))
              = trace (snd (tick_try cfg ev (entered cfg s))) @ [OnError e, NextTick]"
    using t r assms(1) by (simp add: tick_entered)
  have b: "\<forall>e'. onError cfg e = Some e' \<longrightarrow>
            fst (tick cfg ev s) = Rejected e'
          \<and> trace (snd (tick cfg ev s))
              = trace (snd (tick_try cfg ev (entered cfg s))) @ [OnError e]"
    using t r assms(1) by (simp add: tick_entered)
  have c: "(\<forall>x. onError cfg x = None) \<longrightarrow>
            (\<forall>n. fst (run n cfg ev s) = Scheduled \<and> running (snd (run n cfg ev s)))"
    using run_scheduled [OF _ assms(1)] by blast
  from t r a b c show ?thesis by simp
qed

theorem tick_error_routed_witness:
  "running st0
   \<and> raised default_config offline_env (entered default_config st0) ''connection lost''
   \<and> onError default_config ''connection lost'' = None
   \<and> fst (tick default_config offline_env st0) = Scheduled
   \<and> trace (snd (tick default_config offline_env st0))
       = [Sleep 0, OnError ''connection lost'', NextTick]
   \<and> fst (run 3 default_config offline_env st0) = Scheduled
   \<and> raised failing_callback_config sound_env (entered failing_callback_config st0) ''callback failed''
   \<and> fst (tick failing_callback_config sound_env st0) = Scheduled
   \<and> trace (snd (tick failing_callback_config sound_env st0))
       = [Sleep 0, OnNewJob due_row, OnError ''callback failed'', NextTick]
   \<and> raised default_config update_fails_env (entered default_config st0) ''update failed''
   \<and> fst (tick default_config update_fails_env st0) = Scheduled
   \<and> trace (snd (tick default_config update_fails_env st0))
       = [Sleep 0, OnNewJob due_row, OnError ''update failed'', NextTick]"
proof -
  have r: "running st0" by (simp add: st0_def)
  have o: "\<forall>x. onError default_config x = None" "\<forall>x. onError failing_callback_config x = None"
    by (simp_all add: default_config_def failing_callback_config_def)
  have t: "trace (snd (tick_try default_config offline_env (entered default_config st0))) = [Sleep 0]"
    "trace (snd (tick_try failing_callback_config sound_env (entered failing_callback_config st0)))
       = [Sleep 0, OnNewJob due_row]"
    "trace (snd (tick_try default_config update_fails_env (entered default_config st0)))
       = [Sleep 0, OnNewJob due_row]"
    by (simp_all add: eval_tick)
  from tick_error_routed [OF r offline_raised] tick_error_routed [OF r callback_raised]
    tick_error_routed [OF r update_raised] o t r offline_raised callback_raised update_raised
  show ?thesis by simp
qed

text \<open>
  The claim C7 as it stands, for every tick and every hook, fails: with the store offline
  and an \<^verbatim>\<open>onError\<close> hook that raises, the error of the claim reaches the hook, the
  tick is rejected without scheduling its successor, and the loop ends there.
\<close>

theorem tick_error_onError_raises:
  "running st0
   \<and> raised rethrowing_config offline_env (entered rethrowing_config st0) ''connection lost''
   \<and> tick rethrowing_config offline_env st0
       = (Rejected ''connection lost'',
          st0\<lparr>processing := True, trace := [Sleep 0, OnError ''connection lost'']\<rparr>)
   \<and> run 3 rethrowing_config offline_env st0
       = (Rejected ''connection lost'',
          st0\<lparr>processing := True, trace := [Sleep 0, OnError ''connection lost'']\<rparr>)"
proof -
  have t: "tick rethrowing_config offline_env st0
       = (Rejected ''connection lost'',
          st0\<lparr>processing := True, trace := [Sleep 0, OnError ''connection lost'']\<rparr>)"
    by (simp add: eval_tick)
  have n: "run 3 rethrowing_config offline_env st0 = tick rethrowing_config offline_env st0"
    by (simp add: t numeral_3_eq_3)
  have r: "running st0" by (simp add: st0_def)
  have q: "raised rethrowing_config offline_env (entered rethrowing_config st0) ''connection lost''"
    by (simp add: eval_tick)
  from t n r q show ?thesis by simp
qed

text \<open>
  C8. With an \<^verbatim>\<open>onIdle\<close> hook configured, a tick whose claim finds no job leaves
  the scheduler idle and invokes the hook once if the idle flag was clear and not at all
  if it was set. A tick that clears a set idle flag is a tick of a running scheduler whose
  claim found a job; a tick that finds a job clears the flag and does not invoke the hook.
\<close>

theorem onIdle_edge:
  "(running s \<longrightarrow> onIdle cfg \<noteq> None \<longrightarrow>
      fst (checkNextAndLock cfg ev (entered cfg s)) = Inr None \<longrightarrow>
        idle (snd (tick cfg ev s))
      \<and> count_list (trace (snd (tick cfg ev s))) OnIdle
          = count_list (trace s) OnIdle + (if idle s then 0 else 1))
   \<and> (idle s \<longrightarrow> \<not> idle (snd (tick cfg ev s)) \<longrightarrow>
        running s \<and> (\<exists>job. fst (checkNextAndLock cfg ev (entered cfg s)) = Inr (Some job)))
   \<and> (\<forall>job. running s \<longrightarrow>
        fst (checkNextAndLock cfg ev (entered cfg s)) = Inr (Some job) \<longrightarrow>
          \<not> idle (snd (tick cfg ev s))
        \<and> count_list (trace (snd (tick cfg ev s))) OnIdle = count_list (trace s) OnIdle)"
proof -
  obtain r s1 where c: "checkNextAndLock cfg ev (entered cfg s) = (r, s1)"
    by (cases "checkNextAndLock cfg ev (entered cfg s)")
  note e = entered_flags [of cfg s]
  have a: "running s \<longrightarrow> onIdle cfg \<noteq> None \<longrightarrow>
      fst (checkNextAndLock cfg ev (entered cfg s)) = Inr None \<longrightarrow>
        idle (snd (tick cfg ev s))
      \<and> count_list (trace (snd (tick cfg ev s))) OnIdle
          = count_list (trace s) OnIdle + (if idle s then 0 else 1)"
  proof (intro impI)
    assume r: "running s" and h: "onIdle cfg \<noteq> None"
      and n: "fst (checkNextAndLock cfg ev (entered cfg s)) = Inr None"
    from n c have c': "checkNextAndLock cfg ev (entered cfg s) = (Inr None, s1)" by simp
    from tick_try_no_job_idle [OF c'] tick_after_try [OF r, of cfg ev] e h
    show "idle (snd (tick cfg ev s))
      \<and> count_list (trace (snd (tick cfg ev s))) OnIdle
          = count_list (trace s) OnIdle + (if idle s then 0 else 1)"
      by simp
  qed
  have b: "idle s \<longrightarrow> \<not> idle (snd (tick cfg ev s)) \<longrightarrow>
        running s \<and> (\<exists>job. fst (checkNextAndLock cfg ev (entered cfg s)) = Inr (Some job))"
  proof (intro impI)
    assume i: "idle s" and ni: "\<not> idle (snd (tick cfg ev s))"
    have r: "running s"
      using i ni by (cases "running s") (simp_all add: tick_not_running)
    have "\<exists>job. r = Inr (Some job)"
    proof (cases r)
      case (Inl x)
      with c tick_try_failed_idle [of cfg ev "entered cfg s" x s1] tick_after_try [OF r, of cfg ev] e i ni
      show ?thesis by simp
    next
      case (Inr jo)
      show ?thesis
      proof (cases jo)
        case None
        with Inr c tick_try_no_job_idle [of cfg ev "entered cfg s" s1] tick_after_try [OF r, of cfg ev] ni
        show ?thesis by simp
      next
        case (Some job)
        with Inr show ?thesis by simp
      qed
    qed
    with r c show "running s \<and> (\<exists>job. fst (checkNextAndLock cfg ev (entered cfg s)) = Inr (Some job))"
      by simp
  qed
  have d: "\<forall>job. running s \<longrightarrow>
        fst (checkNextAndLock cfg ev (entered cfg s)) = Inr (Some job) \<longrightarrow>
          \<not> idle (snd (tick cfg ev s))
        \<and> count_list (trace (snd (tick cfg ev s))) OnIdle = count_list (trace s) OnIdle"
  proof (intro allI impI)
    fix job
    assume r: "running s" and j: "fst (checkNextAndLock cfg ev (entered cfg s)) = Inr (Some job)"
    from j c have c': "checkNextAndLock cfg ev (entered cfg s) = (Inr (Some job), s1)" by simp
    from tick_try_job_idle [OF c'] tick_after_try [OF r, of cfg ev] e
    show "\<not> idle (snd (tick cfg ev s))
        \<and> count_list (trace (snd (tick cfg ev s))) OnIdle = count_list (trace s) OnIdle"
      by simp
  qed
  from a b d show ?thesis by blast
qed

theorem onIdle_edge_witness:
  "running st_empty \<and> \<not> idle st_empty \<and> onIdle hooked_config \<noteq> None
   \<and> fst (checkNextAndLock hooked_config sound_env (entered hooked_config st_empty)) = Inr None
   \<and> idle (snd (tick hooked_config sound_env st_empty))
   \<and> count_list (trace (snd (tick hooked_config sound_env st_empty))) OnIdle = 1
   \<and> count_list (trace (snd (run 2 hooked_config sound_env st_empty))) OnIdle = 1"
proof -
  have r: "running st_empty" "\<not> idle st_empty" "trace st_empty = []"
    by (simp_all add: st_empty_def)
  have h: "onIdle hooked_config \<noteq> None" by (simp add: hooked_config_def)
  have n: "count_list (trace (snd (run 2 hooked_config sound_env st_empty))) OnIdle = 1"
    by (simp add: idle_run2)
  from onIdle_edge [of st_empty hooked_config sound_env] r h empty_no_job n
  show ?thesis by simp
qed

section \<open>Stopping\<close>

text \<open>
  C9, as amended. \<open>stop\<close> clears the running flag. While the processing flag is set
  it sleeps 300 ms and tries again (with no sleeps left it is still polling); the first
  attempt that finds the flag clear invokes \<^verbatim>\<open>onStop\<close> and returns, so
  \<open>stop\<close> returns only in a state that is neither running nor processing. Called again on the state it returned, it leaves
  the flags, the table and the clock as they are and invokes \<^verbatim>\<open>onStop\<close> once
  more.
\<close>

theorem stop_drains:
  "stop cfg fs s =
     (case find (\<lambda>x. \<not> processing x) (polled fs s) of
        None \<Rightarrow> None
      | Some x \<Rightarrow> Some (call_hook OnStop (onStop cfg) x))
   \<and> (\<forall>r s'. stop cfg fs s = Some (r, s') \<longrightarrow> \<not> running s' \<and> \<not> processing s')
   \<and> (processing s \<longrightarrow>
        stop cfg [] s = None
      \<and> (\<forall>f. stop cfg (f # fs) s = stop cfg fs (f (sleep 300 (s\<lparr>running := False\<rparr>)))))
   \<and> (\<not> processing s \<longrightarrow>
        stop cfg fs s = Some (call_hook OnStop (onStop cfg) (s\<lparr>running := False\<rparr>)))
   \<and> (\<forall>r s'. stop cfg fs s = Some (r, s') \<longrightarrow>
        (\<exists>r2 s2. stop cfg gs s' = Some (r2, s2)
           \<and> running s2 = running s' \<and> processing s2 = processing s' \<and> idle s2 = idle s'
           \<and> rows s2 = rows s' \<and> now s2 = now s'
           \<and> trace s2 = trace s' @ (if onStop cfg = None then [] else [OnStop])))"
proof -
  have a: "\<forall>r s'. stop cfg fs s = Some (r, s') \<longrightarrow> \<not> running s' \<and> \<not> processing s'"
    using stop_Some by blast
  have b: "processing s \<longrightarrow>
        stop cfg [] s = None
      \<and> (\<forall>f. stop cfg (f # fs) s = stop cfg fs (f (sleep 300 (s\<lparr>running := False\<rparr>))))"
    by simp
  have c: "\<not> processing s \<longrightarrow>
        stop cfg fs s = Some (call_hook OnStop (onStop cfg) (s\<lparr>running := False\<rparr>))"
    using stop_idle by blast
  have d: "\<forall>r s'. stop cfg fs s = Some (r, s') \<longrightarrow>
        (\<exists>r2 s2. stop cfg gs s' = Some (r2, s2)
           \<and> running s2 = running s' \<and> processing s2 = processing s' \<and> idle s2 = idle s'
           \<and> rows s2 = rows s' \<and> now s2 = now s'
           \<and> trace s2 = trace s' @ (if onStop cfg = None then [] else [OnStop]))"
  proof (intro allI impI)
    fix r s'
    assume "stop cfg fs s = Some (r, s')"
    from stop_Some [OF this] have f: "\<not> running s'" "\<not> processing s'" by simp_all
    obtain r2 s2 where h: "call_hook OnStop (onStop cfg) (s'\<lparr>running := False\<rparr>) = (r2, s2)"
      by (cases "call_hook OnStop (onStop cfg) (s'\<lparr>running := False\<rparr>)")
    from call_hook_flags [OF h] f stop_idle [OF f(2), of cfg gs] h
    show "\<exists>r2 s2. stop cfg gs s' = Some (r2, s2)
           \<and> running s2 = running s' \<and> processing s2 = processing s' \<and> idle s2 = idle s'
           \<and> rows s2 = rows s' \<and> now s2 = now s'
           \<and> trace s2 = trace s' @ (if onStop cfg = None then [] else [OnStop])"
      by (cases "onStop cfg") auto
  qed
  from stop_polled [of cfg fs s] a b c d show ?thesis by blast
qed

theorem stop_drains_witness:
  "processing st_busy
   \<and> stop hooked_config [] st_busy = None
   \<and> stop hooked_config [\<lambda>x. x\<lparr>processing := False\<rparr>] st_busy
       = Some (None, st_busy\<lparr>running := False, processing := False, now := 1700000000300,
                              trace := [Sleep 300, OnStop]\<rparr>)"
proof -
  have p: "processing st_busy" by (simp add: st_busy_def)
  from stop_drains [of hooked_config "[]" st_busy] p
  have a: "stop hooked_config [] st_busy = None"
    and b: "stop hooked_config [\<lambda>x. x\<lparr>processing := False\<rparr>] st_busy
        = stop hooked_config [] ((\<lambda>x. x\<lparr>processing := False\<rparr>) (sleep 300 (st_busy\<lparr>running := False\<rparr>)))"
    by blast+
  have c: "stop hooked_config [] ((\<lambda>x. x\<lparr>processing := False\<rparr>) (sleep 300 (st_busy\<lparr>running := False\<rparr>)))
       = Some (None, st_busy\<lparr>running := False, processing := False, now := 1700000000300,
                              trace := [Sleep 300, OnStop]\<rparr>)"
    by (simp add: eval_tick)
  from p a b c show ?thesis by simp
qed

text \<open>
  The claim C9 as it stands fails in its last part: on a scheduler that is already stopped
  (not running, not processing, \<^verbatim>\<open>onStop\<close> already invoked once), a further call
  of \<open>stop\<close> invokes \<^verbatim>\<open>onStop\<close> a second time.
\<close>

theorem stop_twice_onStop_twice:
  "\<not> running st_stopped \<and> \<not> processing st_stopped \<and> trace st_stopped = [OnStop]
   \<and> stop hooked_config [] st_stopped = Some (None, st_stopped\<lparr>trace := [OnStop, OnStop]\<rparr>)"
  by (simp add: eval_tick)

text \<open>
  C10. When the claim, the \<^verbatim>\<open>onNewJob\<close> callback or the rescheduling raises in a
  tick of a running scheduler, the error is handed to \<^verbatim>\<open>onError\<close> and the tick
  ends with the processing flag still set. A \<open>stop\<close> that follows never returns:
  whatever runs during its sleeps, as long as it does not clear the flag of a stopped
  scheduler (the pending ticks do not: they return at once), the poll is still going after
  any number of sleeps.
\<close>

theorem error_leaves_processing:
  assumes "running s" and "raised cfg ev (entered cfg s) e"
  shows "isProcessing (snd (tick cfg ev s))
       \<and> OnError e \<in> set (trace (snd (tick cfg ev s)))
       \<and> (\<forall>fs. (\<forall>f \<in> set fs. \<forall>x. \<not> running x \<longrightarrow> processing x \<longrightarrow> processing (f x))
              \<longrightarrow> stop cfg fs (snd (tick cfg ev s)) = None)
       \<and> (\<forall>n. stop cfg (replicate n (\<lambda>x. snd (tick cfg ev x))) (snd (tick cfg ev s)) = None)"
proof -
  from raised_tick_try [OF assms(2)] entered_flags [of cfg s]
  have p: "processing (snd (tick_try cfg ev (entered cfg s)))"
    and e: "fst (tick_try cfg ev (entered cfg s)) = Some e" by simp_all
  from p tick_after_try [OF assms(1), of cfg ev]
  have a: "processing (snd (tick cfg ev s))" by simp
  have b: "OnError e \<in> set (trace (snd (tick cfg ev s)))"
    using e assms(1)
    by (cases "tick_try cfg ev (entered cfg s)") (auto simp: tick_entered split: option.splits)
  have c: "\<forall>fs. (\<forall>f \<in> set fs. \<forall>x. \<not> running x \<longrightarrow> processing x \<longrightarrow> processing (f x))
              \<longrightarrow> stop cfg fs (snd (tick cfg ev s)) = None"
    using stop_never a by blast
  have d: "\<forall>n. stop cfg (replicate n (\<lambda>x. snd (tick cfg ev x))) (snd (tick cfg ev s)) = None"
  proof
    fix n
    have "\<forall>f \<in> set (replicate n (\<lambda>x. snd (tick cfg ev x))).
            \<forall>x. \<not> running x \<longrightarrow> processing x \<longrightarrow> processing (f x)"
      by (simp add: tick_not_running)
    from stop_never [OF this a]
    show "stop cfg (replicate n (\<lambda>x. snd (tick cfg ev x))) (snd (tick cfg ev s)) = None" .
  qed
  from a b c d show ?thesis by (simp add: isProcessing_def)
qed

theorem error_leaves_processing_witness:
  "running st0
   \<and> raised default_config offline_env (entered default_config st0) ''connection lost''
   \<and> isProcessing (snd (tick default_config offline_env st0))
   \<and> stop default_config (replicate 3 (\<lambda>x. snd (tick default_config offline_env x)))
         (snd (tick default_config offline_env st0)) = None
   \<and> raised failing_callback_config sound_env (entered failing_callback_config st0) ''callback failed''
   \<and> isProcessing (snd (tick failing_callback_config sound_env st0))"
proof -
  have r: "running st0" by (simp add: st0_def)
  from error_leaves_processing [OF r offline_raised] error_leaves_processing [OF r callback_raised]
    r offline_raised callback_raised
  show ?thesis by blast
qed

end
